theory Spec2Isabelle
  imports Complex_Main "HOL-Library.Sublist"
begin

section \<open>Text: Python strings over the code points below 256\<close>

text \<open>
  A Python \<open>str\<close> is a sequence of code points. The model takes the code points
  below 256 (Latin-1), one \<open>char\<close> each, so that \<open>length\<close> is Python's \<open>len\<close>.
  The section sign, U+00A7, is the single character \<open>CHR 0xA7\<close>.
\<close>

definition sect :: char where
  "sect = CHR 0xA7"

definition code :: "char \<Rightarrow> int" where
  "code c = of_char c"

text \<open>\<open>[0-9]\<close>: the only decimal digits (category Nd) below 256, what \<open>\d\<close> matches.\<close>

definition is_dec_digit :: "char \<Rightarrow> bool" where
  "is_dec_digit c = (48 \<le> code c \<and> code c \<le> 57)"

text \<open>\<open>str.isdigit\<close>: the decimal digits and the superscripts 2, 3 and 1.\<close>

definition isdigit :: "char \<Rightarrow> bool" where
  "isdigit c = (is_dec_digit c \<or> code c = 178 \<or> code c = 179 \<or> code c = 185)"

text \<open>\<open>str.isspace\<close>, also what \<open>\s\<close> matches and what \<open>str.strip()\<close> removes.\<close>

definition isspace :: "char \<Rightarrow> bool" where
  "isspace c = ((9 \<le> code c \<and> code c \<le> 13) \<or> (28 \<le> code c \<and> code c \<le> 32)
                \<or> code c = 133 \<or> code c = 160)"

definition is_upper_letter :: "char \<Rightarrow> bool" where
  "is_upper_letter c = ((65 \<le> code c \<and> code c \<le> 90)
                        \<or> (192 \<le> code c \<and> code c \<le> 222 \<and> code c \<noteq> 215))"

definition is_lower_letter :: "char \<Rightarrow> bool" where
  "is_lower_letter c = ((97 \<le> code c \<and> code c \<le> 122)
                        \<or> (223 \<le> code c \<and> code c \<noteq> 247)
                        \<or> code c = 170 \<or> code c = 181 \<or> code c = 186)"

text \<open>\<open>\w\<close>: \<open>str.isalnum\<close> or the underscore; below 256 the numeric
  characters are the digits, the three superscripts and the three vulgar fractions.\<close>

definition is_word_char :: "char \<Rightarrow> bool" where
  "is_word_char c = (is_upper_letter c \<or> is_lower_letter c \<or> isdigit c
                     \<or> (188 \<le> code c \<and> code c \<le> 190) \<or> code c = 95)"

text \<open>\<open>str.lower\<close> on one character; every image stays below 256.\<close>

definition lower_char :: "char \<Rightarrow> char" where
  "lower_char c = (if is_upper_letter c then char_of (code c + 32) else c)"

section \<open>Regular expressions as Python's \<open>re\<close> matches them\<close>

text \<open>
  The patterns of the program use literals, the classes \<open>\d\<close>, \<open>\s\<close>, \<open>\w\<close>,
  \<open>.\<close> and bracket sets, quantifiers on single-character atoms, optional groups,
  alternation, one or two capture groups and the anchors \<open>^\<close> and \<open>$\<close>.
\<close>

datatype cset = Lit char | Digit | Space | Word | AnyChar | OneOf "cset list"

datatype regex =
    Eps
  | Sym cset
  | Cat regex regex
  | Alt regex regex
  | Opt regex
  | Rep cset nat "nat option"
  | RepLazy cset nat "nat option"
  | Grp nat regex
  | Bos
  | Eos

text \<open>The first argument is the flag \<open>re.IGNORECASE\<close>.\<close>

fun cset_match :: "bool \<Rightarrow> cset \<Rightarrow> char \<Rightarrow> bool" where
  "cset_match ic (Lit a) c = (if ic then lower_char c = lower_char a else c = a)"
| "cset_match ic Digit c = is_dec_digit c"
| "cset_match ic Space c = isspace c"
| "cset_match ic Word c = is_word_char c"
| "cset_match ic AnyChar c = (c \<noteq> CHR 0x0A)"
| "cset_match ic (OneOf cs) c = (\<exists>x \<in> set cs. cset_match ic x c)"

text \<open>
  A matcher state is the position reached, the text still to read and the groups
  captured so far (latest first). \<open>rmatch\<close> lists every way the pattern matches
  from a state, in the order in which the backtracking matcher tries them: the
  head of the list is the match Python reports.
\<close>

type_synonym mstate = "nat \<times> string \<times> (nat \<times> string) list"

fun rep_greedy :: "bool \<Rightarrow> cset \<Rightarrow> nat \<Rightarrow> nat option \<Rightarrow> nat \<Rightarrow> string \<Rightarrow> (nat \<times> string) list" where
  "rep_greedy ic cs lo hi pos [] = (if lo = 0 then [(pos, [])] else [])"
| "rep_greedy ic cs lo hi pos (c # rest) =
     (if hi \<noteq> Some 0 \<and> cset_match ic cs c
      then rep_greedy ic cs (lo - 1) (map_option (\<lambda>h. h - 1) hi) (Suc pos) rest else [])
     @ (if lo = 0 then [(pos, c # rest)] else [])"

fun rep_lazy :: "bool \<Rightarrow> cset \<Rightarrow> nat \<Rightarrow> nat option \<Rightarrow> nat \<Rightarrow> string \<Rightarrow> (nat \<times> string) list" where
  "rep_lazy ic cs lo hi pos [] = (if lo = 0 then [(pos, [])] else [])"
| "rep_lazy ic cs lo hi pos (c # rest) =
     (if lo = 0 then [(pos, c # rest)] else [])
     @ (if hi \<noteq> Some 0 \<and> cset_match ic cs c
        then rep_lazy ic cs (lo - 1) (map_option (\<lambda>h. h - 1) hi) (Suc pos) rest else [])"

fun rmatch :: "bool \<Rightarrow> regex \<Rightarrow> mstate \<Rightarrow> mstate list" where
  "rmatch ic Eps st = [st]"
| "rmatch ic (Sym cs) (pos, rest, caps) =
     (case rest of [] \<Rightarrow> []
      | c # rest' \<Rightarrow> if cset_match ic cs c then [(Suc pos, rest', caps)] else [])"
| "rmatch ic (Cat r1 r2) st = concat (map (rmatch ic r2) (rmatch ic r1 st))"
| "rmatch ic (Alt r1 r2) st = rmatch ic r1 st @ rmatch ic r2 st"
| "rmatch ic (Opt r) st = rmatch ic r st @ [st]"
| "rmatch ic (Rep cs lo hi) (pos, rest, caps) =
     map (\<lambda>(p, s). (p, s, caps)) (rep_greedy ic cs lo hi pos rest)"
| "rmatch ic (RepLazy cs lo hi) (pos, rest, caps) =
     map (\<lambda>(p, s). (p, s, caps)) (rep_lazy ic cs lo hi pos rest)"
| "rmatch ic (Grp n r) (pos, rest, caps) =
     map (\<lambda>(p, s, caps'). (p, s, (n, take (p - pos) rest) # caps')) (rmatch ic r (pos, rest, caps))"
| "rmatch ic Bos (pos, rest, caps) = (if pos = 0 then [(pos, rest, caps)] else [])"
| "rmatch ic Eos (pos, rest, caps) =
     (if rest = [] \<or> rest = [CHR 0x0A] then [(pos, rest, caps)] else [])"

text \<open>A match object: where the match starts and ends, and its groups.\<close>

record match =
  m_start :: nat
  m_end :: nat
  m_groups :: "(nat \<times> string) list"

definition first_match :: "bool \<Rightarrow> regex \<Rightarrow> nat \<Rightarrow> string \<Rightarrow> match option" where
  "first_match ic r pos rest =
     (case rmatch ic r (pos, rest, []) of [] \<Rightarrow> None
      | (p, s, caps) # _ \<Rightarrow> Some \<lparr>m_start = pos, m_end = p, m_groups = caps\<rparr>)"

text \<open>\<open>re.match\<close>: the pattern must match at the start of the string.\<close>

definition re_match :: "bool \<Rightarrow> regex \<Rightarrow> string \<Rightarrow> match option" where
  "re_match ic r s = first_match ic r 0 s"

text \<open>\<open>re.search\<close>: the first start position, from the left, with a match.\<close>

fun search_from :: "bool \<Rightarrow> regex \<Rightarrow> nat \<Rightarrow> string \<Rightarrow> match option" where
  "search_from ic r pos [] = first_match ic r pos []"
| "search_from ic r pos (c # rest) =
     (case first_match ic r pos (c # rest) of
        Some m \<Rightarrow> Some m
      | None \<Rightarrow> search_from ic r (Suc pos) rest)"

definition re_search :: "bool \<Rightarrow> regex \<Rightarrow> string \<Rightarrow> match option" where
  "re_search ic r s = search_from ic r 0 s"

text \<open>\<open>m.group(n)\<close> for a group that took part in the match (\<open>n \<ge> 1\<close>); a group
  that did not is Python's \<open>None\<close>.\<close>

definition group :: "match \<Rightarrow> nat \<Rightarrow> string option" where
  "group m n = map_of (m_groups m) n"

text \<open>\<open>sets_group n r\<close>: every match of \<open>r\<close> passes through a group numbered \<open>n\<close>.\<close>

fun sets_group :: "nat \<Rightarrow> regex \<Rightarrow> bool" where
  "sets_group n (Grp k r) = (k = n \<or> sets_group n r)"
| "sets_group n (Cat r1 r2) = (sets_group n r1 \<or> sets_group n r2)"
| "sets_group n (Alt r1 r2) = (sets_group n r1 \<and> sets_group n r2)"
| "sets_group n r = False"

text \<open>
  Three readings of a pattern, used to reason about what a group captures: the least
  number of characters a match consumes, the bodies of the groups numbered \<open>n\<close>, and
  whether every character the pattern can consume satisfies \<open>P\<close>. \<open>matched_by\<close>
  says that the pattern consumes exactly the string \<open>w\<close> somewhere.
\<close>

fun min_len :: "regex \<Rightarrow> nat" where
  "min_len Eps = 0"
| "min_len (Sym cs) = 1"
| "min_len (Cat r1 r2) = min_len r1 + min_len r2"
| "min_len (Alt r1 r2) = min (min_len r1) (min_len r2)"
| "min_len (Opt r) = 0"
| "min_len (Rep cs lo hi) = lo"
| "min_len (RepLazy cs lo hi) = lo"
| "min_len (Grp n r) = min_len r"
| "min_len Bos = 0"
| "min_len Eos = 0"

fun grp_bodies :: "nat \<Rightarrow> regex \<Rightarrow> regex list" where
  "grp_bodies n (Grp k r) = (if k = n then [r] else []) @ grp_bodies n r"
| "grp_bodies n (Cat r1 r2) = grp_bodies n r1 @ grp_bodies n r2"
| "grp_bodies n (Alt r1 r2) = grp_bodies n r1 @ grp_bodies n r2"
| "grp_bodies n (Opt r) = grp_bodies n r"
| "grp_bodies n r = []"

fun accepts_only :: "bool \<Rightarrow> (char \<Rightarrow> bool) \<Rightarrow> regex \<Rightarrow> bool" where
  "accepts_only ic P (Sym cs) = (\<forall>c. cset_match ic cs c \<longrightarrow> P c)"
| "accepts_only ic P (Cat r1 r2) = (accepts_only ic P r1 \<and> accepts_only ic P r2)"
| "accepts_only ic P (Alt r1 r2) = (accepts_only ic P r1 \<and> accepts_only ic P r2)"
| "accepts_only ic P (Opt r) = accepts_only ic P r"
| "accepts_only ic P (Rep cs lo hi) = (\<forall>c. cset_match ic cs c \<longrightarrow> P c)"
| "accepts_only ic P (RepLazy cs lo hi) = (\<forall>c. cset_match ic cs c \<longrightarrow> P c)"
| "accepts_only ic P (Grp n r) = accepts_only ic P r"
| "accepts_only ic P r = True"

definition matched_by :: "bool \<Rightarrow> regex \<Rightarrow> string \<Rightarrow> bool" where
  "matched_by ic r w =
     (\<exists>pos s caps caps'. (pos + length w, s, caps') \<in> set (rmatch ic r (pos, w @ s, caps)))"

text \<open>
  \<open>re.findall\<close> for a pattern without groups: the matched substrings, from left to
  right, each search resuming where the previous match ended. (After an empty match
  the search resumes one character later; the one pattern it is used with matches at
  least five characters.)
\<close>

function findall_from :: "bool \<Rightarrow> regex \<Rightarrow> nat \<Rightarrow> string \<Rightarrow> string list" where
  "findall_from ic r pos [] = (case first_match ic r pos [] of None \<Rightarrow> [] | Some m \<Rightarrow> [[]])"
| "findall_from ic r pos (c # rest) =
     (case search_from ic r pos (c # rest) of
        None \<Rightarrow> []
      | Some m \<Rightarrow>
          (let skip = m_start m - pos;
               len = m_end m - m_start m;
               s = drop skip (c # rest)
           in take len s # findall_from ic r (m_start m + max 1 len) (drop (max 1 len) s)))"
  by pat_completeness auto
termination
  by (relation "measure (\<lambda>(ic, r, pos, s). length s)") auto

definition re_findall :: "bool \<Rightarrow> regex \<Rightarrow> string \<Rightarrow> string list" where
  "re_findall ic r s = findall_from ic r 0 s"

text \<open>Abbreviations for the pattern syntax: sequences, literal words, alternatives,
  \<open>+\<close> and \<open>*\<close>.\<close>

fun seq :: "regex list \<Rightarrow> regex" where
  "seq [] = Eps"
| "seq [r] = r"
| "seq (r # rs) = Cat r (seq rs)"

definition str :: "string \<Rightarrow> regex" where
  "str s = seq (map (\<lambda>c. Sym (Lit c)) s)"

fun alts :: "regex list \<Rightarrow> regex" where
  "alts [] = Eps"
| "alts [r] = r"
| "alts (r # rs) = Alt r (alts rs)"

definition Plus :: "cset \<Rightarrow> regex" where
  "Plus cs = Rep cs 1 None"

definition Star :: "cset \<Rightarrow> regex" where
  "Star cs = Rep cs 0 None"

section \<open>Python's string and number primitives\<close>

text \<open>\<open>s.strip()\<close>, \<open>s.rstrip(chars)\<close>, \<open>s.endswith(t)\<close> and \<open>s.replace(old, new)\<close>
  (for a non-empty \<open>old\<close>, as in every call of the program).\<close>

definition strip :: "string \<Rightarrow> string" where
  "strip s = rev (dropWhile isspace (rev (dropWhile isspace s)))"

definition rstrip :: "string \<Rightarrow> string \<Rightarrow> string" where
  "rstrip chars s = rev (dropWhile (\<lambda>c. c \<in> set chars) (rev s))"

definition endswith :: "string \<Rightarrow> string \<Rightarrow> bool" where
  "endswith s t = suffix t s"

function replace :: "string \<Rightarrow> string \<Rightarrow> string \<Rightarrow> string" where
  "replace old new [] = []"
| "replace old new (c # cs) =
     (if old \<noteq> [] \<and> prefix old (c # cs)
      then new @ replace old new (drop (length old) (c # cs))
      else c # replace old new cs)"
  by pat_completeness auto
termination
  by (relation "measure (\<lambda>(old, new, s). length s)") auto

text \<open>Decimal digits to a number and back.\<close>

definition digit_val :: "char \<Rightarrow> int" where
  "digit_val c = code c - 48"

definition int_of_digits :: "string \<Rightarrow> int" where
  "int_of_digits ds = foldl (\<lambda>a c. 10 * a + digit_val c) 0 ds"

definition digit_char :: "int \<Rightarrow> char" where
  "digit_char d = char_of (48 + d)"

function digits_of_int :: "int \<Rightarrow> string" where
  "digits_of_int n =
     (if n < 10 then [digit_char n] else digits_of_int (n div 10) @ [digit_char (n mod 10)])"
  by pat_completeness auto
termination
  by (relation "measure nat") auto

declare digits_of_int.simps [simp del]

function ipow :: "int \<Rightarrow> int \<Rightarrow> int" where
  "ipow b e = (if e \<le> 0 then 1 else b * ipow b (e - 1))"
  by pat_completeness auto
termination
  by (relation "measure (\<lambda>(b, e). nat e)") auto

declare ipow.simps [simp del]

function bit_length :: "int \<Rightarrow> int" where
  "bit_length n = (if n \<le> 0 then 0 else 1 + bit_length (n div 2))"
  by pat_completeness auto
termination
  by (relation "measure nat") auto

declare bit_length.simps [simp del]

text \<open>
  A Python \<open>float\<close> is a binary64 number: \<open>Finite m e\<close> is the number \<open>m * 2 ^ e\<close>
  (\<open>float_value\<close>), and there are two infinities and NaN. Negative zero is not
  distinguished from zero. The comparisons are Python's: every comparison with NaN
  is false.
\<close>

datatype pyfloat = Finite int int | PosInf | NegInf | NaN

definition float_value :: "int \<Rightarrow> int \<Rightarrow> rat" where
  "float_value m e = (if 0 \<le> e then of_int m * 2 ^ nat e else of_int m / 2 ^ nat (- e))"

definition of_int_float :: "int \<Rightarrow> pyfloat" where
  "of_int_float n = Finite n 0"

fun f_less :: "pyfloat \<Rightarrow> pyfloat \<Rightarrow> bool" where
  "f_less NaN y = False"
| "f_less x NaN = False"
| "f_less (Finite m e) (Finite m' e') =
     (let k = min e e' in m * ipow 2 (e - k) < m' * ipow 2 (e' - k))"
| "f_less (Finite m e) PosInf = True"
| "f_less (Finite m e) NegInf = False"
| "f_less PosInf y = False"
| "f_less NegInf NegInf = False"
| "f_less NegInf y = True"

definition f_greater :: "pyfloat \<Rightarrow> pyfloat \<Rightarrow> bool" where
  "f_greater x y = f_less y x"

definition f_le :: "pyfloat \<Rightarrow> pyfloat \<Rightarrow> bool" where
  "f_le x y = (x \<noteq> NaN \<and> y \<noteq> NaN \<and> \<not> f_less y x)"

text \<open>The quotient \<open>num / den\<close> of two positive integers, rounded to the nearest
  integer, ties to the even one.\<close>

definition round_div :: "int \<Rightarrow> int \<Rightarrow> int" where
  "round_div num den =
     (let q = num div den; r = num mod den
      in if 2 * r < den then q else if den < 2 * r then q + 1 else if even q then q else q + 1)"

text \<open>
  \<open>to_double neg num den\<close> rounds the positive rational \<open>num / den\<close> to binary64
  and gives it its sign: with \<open>2 ^ l \<le> num / den < 2 ^ (l + 1)\<close>, the mantissa has 53
  bits at exponent \<open>l - 52\<close>, or fewer at the least exponent -1074; a result of
  \<open>2 ^ 1024\<close> or more is an infinity.
\<close>

definition ilog2 :: "int \<Rightarrow> int \<Rightarrow> int" where
  "ilog2 num den =
     (let l = bit_length num - bit_length den
      in if (if 0 \<le> l then ipow 2 l * den \<le> num else den \<le> ipow 2 (- l) * num) then l else l - 1)"

definition to_double :: "bool \<Rightarrow> int \<Rightarrow> int \<Rightarrow> pyfloat" where
  "to_double neg num den =
     (if num = 0 then Finite 0 0
      else
        let e = max (ilog2 num den - 52) (- 1074);
            m = (if 0 \<le> e then round_div num (den * ipow 2 e)
                 else round_div (num * ipow 2 (- e)) den)
        in if 1024 < bit_length m + e then (if neg then NegInf else PosInf)
           else Finite (if neg then - m else m) e)"

text \<open>
  \<open>float(s)\<close> on a string: surrounding whitespace is dropped; then an optional sign
  and \<open>inf\<close>, \<open>infinity\<close> or \<open>nan\<close> in any case, or a decimal number with an optional
  fraction and exponent, single underscores allowed between digits. \<open>None\<close> is
  Python's ValueError. \<open>parse_number\<close> returns the digits as an integer and the
  power of ten that scales it.
\<close>

fun scan_digits :: "string \<Rightarrow> string \<times> string" where
  "scan_digits [] = ([], [])"
| "scan_digits [c] = (if is_dec_digit c then ([c], []) else ([], [c]))"
| "scan_digits (c # d # cs) =
     (if is_dec_digit c then
        (if d = CHR ''_'' then
           (case cs of
              [] \<Rightarrow> ([c], d # cs)
            | e # es \<Rightarrow> if is_dec_digit e
                        then (let (ds, r) = scan_digits cs in (c # ds, r))
                        else ([c], d # cs))
         else (let (ds, r) = scan_digits (d # cs) in (c # ds, r)))
      else ([], c # d # cs))"

definition parse_exponent :: "string \<Rightarrow> int option" where
  "parse_exponent s =
     (case s of
        [] \<Rightarrow> Some 0
      | c # cs \<Rightarrow>
          if c = CHR ''e'' \<or> c = CHR ''E'' then
            (let (neg, body) = (case cs of
                                  [] \<Rightarrow> (False, [])
                                | x # xs \<Rightarrow> if x = CHR ''-'' then (True, xs)
                                            else if x = CHR ''+'' then (False, xs)
                                            else (False, cs));
                 (ds, r) = scan_digits body
             in if ds = [] \<or> r \<noteq> [] then None
                else Some (if neg then - int_of_digits ds else int_of_digits ds))
          else None)"

definition parse_number :: "string \<Rightarrow> (int \<times> int) option" where
  "parse_number s =
     (let (ip, r1) = scan_digits s;
          (has_dot, r2) = (case r1 of
                             [] \<Rightarrow> (False, [])
                           | c # cs \<Rightarrow> if c = CHR ''.'' then (True, cs) else (False, r1));
          (fp, r3) = (if has_dot then scan_digits r2 else ([], r2))
      in if ip = [] \<and> fp = [] then None
         else (case parse_exponent r3 of
                 None \<Rightarrow> None
               | Some e \<Rightarrow> Some (int_of_digits (ip @ fp), e - int (length fp))))"

definition py_float :: "string \<Rightarrow> pyfloat option" where
  "py_float s =
     (case strip s of
        [] \<Rightarrow> None
      | c # cs \<Rightarrow>
          (let (neg, body) = (if c = CHR ''-'' then (True, cs)
                              else if c = CHR ''+'' then (False, cs)
                              else (False, c # cs));
               lb = map lower_char body
           in if lb = ''inf'' \<or> lb = ''infinity'' then Some (if neg then NegInf else PosInf)
              else if lb = ''nan'' then Some NaN
              else (case parse_number body of
                      None \<Rightarrow> None
                    | Some (n, e10) \<Rightarrow>
                        Some (if 0 \<le> e10 then to_double neg (n * ipow 10 e10) 1
                              else to_double neg n (ipow 10 (- e10))))))"

text \<open>The format \<open>f"{x:.2f}"\<close>: the exact value rounded to two decimals, ties to even.\<close>

definition two_digits :: "int \<Rightarrow> string" where
  "two_digits n = [digit_char (n div 10 mod 10), digit_char (n mod 10)]"

fun format_2f :: "pyfloat \<Rightarrow> string" where
  "format_2f (Finite m e) =
     (let n = (if 0 \<le> e then \<bar>m\<bar> * 100 * ipow 2 e else round_div (\<bar>m\<bar> * 100) (ipow 2 (- e)))
      in (if m < 0 then ''-'' else []) @ digits_of_int (n div 100) @ ''.'' @ two_digits (n mod 100))"
| "format_2f PosInf = ''inf''"
| "format_2f NegInf = ''-inf''"
| "format_2f NaN = ''nan''"

section \<open>Rate tokens\<close>

text \<open>
  \<open>normalize_rate_token\<close>: the two patterns are
  \<^verbatim>\<open>^[\<section>S]\.(\d{3,4})%$\<close> and \<^verbatim>\<open>^[\<section>S](\d)\.(\d{3,4})%$\<close>, matched with
  \<open>re.match\<close> and without flags. Both groups take part in every match of their
  pattern (\<open>group_present\<close> below), so the \<open>None\<close> branches of \<open>group\<close> are never taken.
\<close>

definition glyph :: cset where
  "glyph = OneOf [Lit sect, Lit CHR ''S'']"

definition rate_pat1 :: regex where
  "rate_pat1 = seq [Bos, Sym glyph, Sym (Lit CHR ''.''), Grp 1 (Rep Digit 3 (Some 4)),
                    Sym (Lit CHR ''%''), Eos]"

definition rate_pat2 :: regex where
  "rate_pat2 = seq [Bos, Sym glyph, Grp 1 (Sym Digit), Sym (Lit CHR ''.''),
                    Grp 2 (Rep Digit 3 (Some 4)), Sym (Lit CHR ''%''), Eos]"

definition normalize_rate_token :: "string \<Rightarrow> string" where
  "normalize_rate_token s =
     (case re_match False rate_pat1 s of
        Some m \<Rightarrow> ''5.'' @ the (group m 1) @ ''%''
      | None \<Rightarrow>
         (case re_match False rate_pat2 s of
            Some m \<Rightarrow> ''5'' @ the (group m 1) @ ''.'' @ the (group m 2) @ ''%''
          | None \<Rightarrow> s))"

section \<open>Field extractions\<close>

text \<open>
  \<open>FieldExtraction\<close>: the value is an optional string, the confidence a float (here its
  exact rational value; every confidence of the program is a decimal literal), the
  provenance one of three tags. \<open>validate_confidence\<close> is the model's validator: it
  raises (\<open>None\<close>) outside the unit interval.
\<close>

datatype provenance = Pdf_text | Ocr_text | Llm_fallback

record FieldExtraction =
  value_str :: "string option"
  confidence :: rat
  provenance :: provenance

definition validate_confidence :: "rat \<Rightarrow> rat option" where
  "validate_confidence v = (if \<not> (0 \<le> v \<and> v \<le> 1) then None else Some v)"

text \<open>
  The exceptions that can leave a field parser: none of them is caught there or in
  \<open>process_extraction\<close>, whose parser calls stand outside its \<open>try\<close> block.
  \<open>AttributeError\<close> and \<open>TypeError\<close> are what Python raises when \<open>m.group(1)\<close> is
  \<open>None\<close> and the program goes on to use it as a string; \<open>OverflowError\<close> comes
  from the date library. A parser returns \<open>Inl\<close> of the exception, or \<open>Inr\<close> of its
  result, where \<open>None\<close> is Python's \<open>None\<close>: no match.
\<close>

datatype error = AttributeError | TypeError | OverflowError

text \<open>A \<open>for\<close> loop over rules that returns at the first rule giving a result and
  stops at the first exception.\<close>

fun first_result :: "('a \<Rightarrow> error + 'b option) \<Rightarrow> 'a list \<Rightarrow> error + 'b option" where
  "first_result f [] = Inr None"
| "first_result f (x # xs) =
     (case f x of
        Inl e \<Rightarrow> Inl e
      | Inr (Some y) \<Rightarrow> Inr (Some y)
      | Inr None \<Rightarrow> first_result f xs)"

text \<open>Pattern pieces shared by the field rules.\<close>

fun phrase_parts :: "string list \<Rightarrow> regex list" where
  "phrase_parts [] = []"
| "phrase_parts [w] = [str w]"
| "phrase_parts (w # ws) = str w # Plus Space # phrase_parts ws"

text \<open>Words separated by \<open>\s+\<close>.\<close>

definition phrase :: "string list \<Rightarrow> regex" where
  "phrase ws = seq (phrase_parts ws)"

text \<open>\<open>[:\s]+\<close>\<close>

definition colon_space :: regex where
  "colon_space = Plus (OneOf [Lit CHR '':'', Space])"

text \<open>\<^verbatim>\<open>(?:\s*\(.*?\))?\<close>\<close>

definition paren_opt :: regex where
  "paren_opt = Opt (seq [Star Space, Sym (Lit CHR ''(''), RepLazy AnyChar 0 None, Sym (Lit CHR '')'')])"

text \<open>\<^verbatim>\<open>[\d,]+\.?\d*\<close>\<close>

definition money_body :: regex where
  "money_body = seq [Plus (OneOf [Digit, Lit CHR '','']), Opt (Sym (Lit CHR ''.'')), Star Digit]"

text \<open>\<^verbatim>\<open>\$?[\d,]+\.?\d*\<close>\<close>

definition amount_body :: regex where
  "amount_body = seq [Opt (Sym (Lit CHR ''$'')), Plus (OneOf [Digit, Lit CHR '','']),
                      Opt (Sym (Lit CHR ''.'')), Star Digit]"

text \<open>\<^verbatim>\<open>\d{1,2}[/-]\d{1,2}[/-]\d{2,4}|\w+\s+\d{1,2},?\s+\d{4}\<close>\<close>

definition date_sep :: cset where
  "date_sep = OneOf [Lit CHR ''/'', Lit CHR ''-'']"

definition date_body :: regex where
  "date_body =
     Alt (seq [Rep Digit 1 (Some 2), Sym date_sep, Rep Digit 1 (Some 2), Sym date_sep,
               Rep Digit 2 (Some 4)])
         (seq [Plus Word, Plus Space, Rep Digit 1 (Some 2), Opt (Sym (Lit CHR '','')),
               Plus Space, Rep Digit 4 (Some 4)])"

subsection \<open>Principal balance and escrow\<close>

definition principal_pat :: regex where
  "principal_pat =
     seq [alts [phrase [''Principal'', ''Balance''],
                 phrase [''Unpaid'', ''Principal'', ''Balance''],
                 phrase [''Principal'', ''balance'']],
           colon_space, Opt (Sym (Lit CHR ''$'')), Star Space, Grp 1 money_body]"

definition principal_patterns :: "regex list" where
  "principal_patterns = [principal_pat]"

definition extract_principal_balance ::
  "string \<Rightarrow> provenance \<Rightarrow> error + FieldExtraction option" where
  "extract_principal_balance text prov =
     first_result (\<lambda>pattern.
        case re_search True pattern text of
          None \<Rightarrow> Inr None
        | Some m \<Rightarrow>
            (case group m 1 of
               None \<Rightarrow> Inl AttributeError
             | Some g \<Rightarrow>
                 (let v = replace '','' [] g
                  in case py_float v of
                       Some x \<Rightarrow>
                         Inr (Some \<lparr>value_str = Some v, confidence = 9 / 10, provenance = prov\<rparr>)
                     | None \<Rightarrow> Inr None)))
       principal_patterns"

definition escrow_pat :: regex where
  "escrow_pat =
     seq [alts [phrase [''Escrow'', ''Payment''], str ''Escrow''],
           colon_space, Opt (Sym (Lit CHR ''$'')), Star Space, Grp 1 money_body]"

definition escrow_patterns :: "regex list" where
  "escrow_patterns = [escrow_pat]"

definition extract_escrow ::
  "string \<Rightarrow> provenance \<Rightarrow> error + FieldExtraction option" where
  "extract_escrow text prov =
     first_result (\<lambda>pattern.
        case re_search True pattern text of
          None \<Rightarrow> Inr None
        | Some m \<Rightarrow>
            (case group m 1 of
               None \<Rightarrow> Inl AttributeError
             | Some g \<Rightarrow>
                 (let v = replace '','' [] g
                  in case py_float v of
                       Some x \<Rightarrow>
                         Inr (Some \<lparr>value_str = Some v, confidence = 85 / 100, provenance = prov\<rparr>)
                     | None \<Rightarrow> Inr None)))
       escrow_patterns"

subsection \<open>Note rate\<close>

definition rate_chars :: cset where
  "rate_chars = OneOf [Digit, Lit sect, Lit CHR ''S'']"

definition note_rate_pat :: regex where
  "note_rate_pat =
     seq [alts [seq [phrase [''Interest'', ''Rate''], paren_opt],
                 seq [phrase [''Note'', ''Rate''], paren_opt],
                 seq [phrase [''Current'', ''Interest'', ''Rate''], paren_opt]],
           colon_space,
           Grp 1 (seq [Plus rate_chars, Opt (Sym (Lit CHR ''.'')), Star Digit]),
           Star Space, Opt (Sym (Lit CHR ''%''))]"

definition primary_patterns :: "regex list" where
  "primary_patterns = [note_rate_pat]"

text \<open>\<^verbatim>\<open>Interest\s+Rates\<close> and \<^verbatim>\<open>[\d\<section>S]{1,2}\.\d{2,4}%\<close>\<close>

definition interest_rates_pat :: regex where
  "interest_rates_pat = phrase [''Interest'', ''Rates'']"

definition rate_token_pat :: regex where
  "rate_token_pat = seq [Rep rate_chars 1 (Some 2), Sym (Lit CHR ''.''), Rep Digit 2 (Some 4),
                         Sym (Lit CHR ''%'')]"

text \<open>The sanity check \<open>rate > 0 and rate <= 25\<close> on the parsed value.\<close>

definition rate_ok :: "string \<Rightarrow> bool" where
  "rate_ok v = (case py_float v of
                  None \<Rightarrow> False
                | Some rate \<Rightarrow> f_greater rate (of_int_float 0) \<and> f_le rate (of_int_float 25))"

text \<open>
  \<open>Counter(xs)\<close> is a dictionary in insertion order; \<open>most_common(1)\<close> is \<open>max\<close> by
  count over its items, which keeps the first of several maximal items.
\<close>

fun counter_add :: "('a \<times> nat) list \<Rightarrow> 'a \<Rightarrow> ('a \<times> nat) list" where
  "counter_add [] x = [(x, 1)]"
| "counter_add ((k, n) # kvs) x = (if k = x then (k, n + 1) # kvs else (k, n) # counter_add kvs x)"

definition Counter :: "'a list \<Rightarrow> ('a \<times> nat) list" where
  "Counter xs = foldl counter_add [] xs"

fun max_by_count :: "('a \<times> nat) \<Rightarrow> ('a \<times> nat) list \<Rightarrow> ('a \<times> nat)" where
  "max_by_count best [] = best"
| "max_by_count best (kv # kvs) = max_by_count (if snd best < snd kv then kv else best) kvs"

definition most_common1 :: "('a \<times> nat) list \<Rightarrow> ('a \<times> nat) list" where
  "most_common1 items = (case items of [] \<Rightarrow> [] | kv # kvs \<Rightarrow> [max_by_count kv kvs])"

text \<open>The position of the first occurrence of \<open>x\<close> in a list (its length when there
  is none), to say which of two values was seen first.\<close>

definition first_pos :: "'a list \<Rightarrow> 'a \<Rightarrow> nat" where
  "first_pos xs x = length (takeWhile (\<lambda>y. y \<noteq> x) xs)"

definition primary_rate ::
  "string \<Rightarrow> provenance \<Rightarrow> error + FieldExtraction option" where
  "primary_rate text prov =
     first_result (\<lambda>pattern.
        case re_search True pattern text of
          None \<Rightarrow> Inr None
        | Some m \<Rightarrow>
            (case group m 1 of
               None \<Rightarrow> Inl AttributeError
             | Some g \<Rightarrow>
                 (let captured = (if \<not> endswith g ''%'' then g @ ''%'' else g);
                      normalized = normalize_rate_token captured;
                      v = rstrip ''%'' normalized
                  in if rate_ok v
                     then Inr (Some \<lparr>value_str = Some v, confidence = 90 / 100,
                                      provenance = prov\<rparr>)
                     else Inr None)))
       primary_patterns"

definition secondary_rate :: "string \<Rightarrow> provenance \<Rightarrow> FieldExtraction option" where
  "secondary_rate text prov =
     (case re_search True interest_rates_pat text of
        None \<Rightarrow> None
      | Some table_match \<Rightarrow>
          (let start_pos = m_end table_match;
               snippet = take 500 (drop start_pos text);
               rate_tokens = re_findall False rate_token_pat snippet;
               normalized_tokens = map normalize_rate_token rate_tokens;
               valid_rates = filter rate_ok (map (rstrip ''%'') normalized_tokens)
           in case most_common1 (Counter valid_rates) of
                [] \<Rightarrow> None
              | (most_common_rate, n) # rest \<Rightarrow>
                  Some \<lparr>value_str = Some most_common_rate, confidence = 70 / 100,
                        provenance = prov\<rparr>))"

definition extract_note_rate ::
  "string \<Rightarrow> provenance \<Rightarrow> error + FieldExtraction option" where
  "extract_note_rate text prov =
     (case primary_rate text prov of
        Inl e \<Rightarrow> Inl e
      | Inr (Some fe) \<Rightarrow> Inr (Some fe)
      | Inr None \<Rightarrow> Inr (secondary_rate text prov))"

subsection \<open>Scheduled principal-and-interest payment\<close>

definition pi_primary_pat :: regex where
  "pi_primary_pat =
     seq [alts [phrase [''Principal'', ''and'', ''Interest''], str ''P&I'',
                  phrase [''P'', ''and'', ''I''], phrase [''Principal'', ''&'', ''Interest'']],
            colon_space, Grp 1 amount_body]"

definition pi_primary_patterns :: "(regex \<times> rat) list" where
  "pi_primary_patterns = [(pi_primary_pat, 90 / 100)]"

definition pi_secondary_pat :: regex where
  "pi_secondary_pat =
     seq [alts [phrase [''Monthly'', ''Payment''], phrase [''Payment'', ''Amount''],
                  phrase [''Total'', ''Payment'']],
            colon_space, Grp 1 amount_body]"

definition pi_secondary_patterns :: "(regex \<times> rat) list" where
  "pi_secondary_patterns = [(pi_secondary_pat, 80 / 100)]"

definition pi_fallback_pat :: regex where
  "pi_fallback_pat =
     seq [phrase [''Amount'', ''Due''], colon_space, Grp 1 amount_body]"

definition pi_fallback_patterns :: "(regex \<times> rat) list" where
  "pi_fallback_patterns = [(pi_fallback_pat, 65 / 100)]"

definition all_patterns :: "(regex \<times> rat) list" where
  "all_patterns = pi_primary_patterns @ pi_secondary_patterns @ pi_fallback_patterns"

text \<open>The body of the loop for one captured token; \<open>None\<close> is \<open>continue\<close>.\<close>

definition pi_accept :: "string \<Rightarrow> rat \<Rightarrow> provenance \<Rightarrow> FieldExtraction option" where
  "pi_accept captured conf prov =
     (let has_dollar = (CHR ''$'' \<in> set captured);
          has_comma = (CHR '','' \<in> set captured);
          has_decimal = (CHR ''.'' \<in> set captured)
      in if \<not> (has_dollar \<or> has_comma \<or> has_decimal) then None
         else
           (let normalized = replace '','' [] (replace ''$'' [] captured)
            in case py_float normalized of
                 None \<Rightarrow> None
               | Some amount \<Rightarrow>
                   if f_less amount (of_int_float 100) \<or> f_greater amount (of_int_float 100000) then None
                   else Some \<lparr>value_str = Some (format_2f amount), confidence = conf,
                              provenance = prov\<rparr>))"

definition extract_scheduled_pi ::
  "string \<Rightarrow> provenance \<Rightarrow> error + FieldExtraction option" where
  "extract_scheduled_pi text prov =
     first_result (\<lambda>(pattern, conf).
        case re_search True pattern text of
          None \<Rightarrow> Inr None
        | Some m \<Rightarrow>
            (case group m 1 of
               None \<Rightarrow> Inl TypeError
             | Some captured \<Rightarrow> Inr (pi_accept captured conf prov)))
       all_patterns"

subsection \<open>Dates\<close>

text \<open>
  The date library is a parameter. \<open>parse\<close> stands for \<open>dateutil.parser.parse\<close> on
  a string. It returns a date (the time of day is not used): \<open>Parsed\<close>. Or it raises
  ParserError, a subclass of ValueError and the failure both date parsers catch:
  \<open>ParserError\<close>. Or it raises another exception, which they do not catch:
  \<open>Raises\<close>; the library documents OverflowError for a parsed number beyond the
  largest C integer.
  \<open>strftime("%Y-%m-%d")\<close> prints month and day with two digits and the year as the
  C library does, without padding: four digits from the year 1000 on, fewer below.
\<close>

record date =
  year :: int
  month :: int
  day :: int

datatype parse_result = Parsed date | ParserError | Raises error

record datelib =
  parse :: "string \<Rightarrow> parse_result"

definition strftime_ymd :: "date \<Rightarrow> string" where
  "strftime_ymd d =
     digits_of_int (year d) @ ''-'' @ two_digits (month d) @ ''-'' @ two_digits (day d)"

text \<open>What both date parsers do with a captured date string: the body of their
  \<open>try\<close> statement.\<close>

definition date_field :: "datelib \<Rightarrow> string \<Rightarrow> provenance \<Rightarrow> error + FieldExtraction" where
  "date_field lib date_str prov =
     (case parse lib date_str of
        Parsed parsed_date \<Rightarrow>
          Inr \<lparr>value_str = Some (strftime_ymd parsed_date), confidence = 9 / 10,
               provenance = prov\<rparr>
      | ParserError \<Rightarrow> Inr \<lparr>value_str = Some date_str, confidence = 5 / 10, provenance = prov\<rparr>
      | Raises e \<Rightarrow> Inl e)"

definition next_due_pat :: regex where
  "next_due_pat =
     seq [alts [seq [phrase [''Next'', ''Payment'', ''Due''], paren_opt],
                 seq [phrase [''Payment'', ''Due'', ''Date''], paren_opt],
                 seq [phrase [''Payment'', ''Due''], paren_opt]],
           colon_space, Grp 1 date_body]"

definition next_due_patterns :: "regex list" where
  "next_due_patterns = [next_due_pat]"

definition extract_next_due_date ::
  "datelib \<Rightarrow> string \<Rightarrow> provenance \<Rightarrow> error + FieldExtraction option" where
  "extract_next_due_date lib text prov =
     first_result (\<lambda>pattern.
        case re_search True pattern text of
          None \<Rightarrow> Inr None
        | Some m \<Rightarrow>
            (case group m 1 of
               None \<Rightarrow> Inl TypeError
             | Some date_str \<Rightarrow>
                 (case date_field lib date_str prov of
                    Inl e \<Rightarrow> Inl e
                  | Inr fe \<Rightarrow> Inr (Some fe))))
       next_due_patterns"

definition maturity_pat :: regex where
  "maturity_pat =
     seq [alts [phrase [''Maturity'', ''Date''], phrase [''Payoff'', ''Date'']],
           colon_space, Grp 1 date_body]"

definition maturity_patterns :: "regex list" where
  "maturity_patterns = [maturity_pat]"

definition extract_maturity_date ::
  "datelib \<Rightarrow> string \<Rightarrow> provenance \<Rightarrow> error + FieldExtraction option" where
  "extract_maturity_date lib text prov =
     first_result (\<lambda>pattern.
        case re_search True pattern text of
          None \<Rightarrow> Inr None
        | Some m \<Rightarrow>
            (case group m 1 of
               None \<Rightarrow> Inl TypeError
             | Some date_str \<Rightarrow>
                 (case date_field lib date_str prov of
                    Inl e \<Rightarrow> Inl e
                  | Inr fe \<Rightarrow> Inr (Some fe))))
       maturity_patterns"

section \<open>Text acquisition\<close>

subsection \<open>Scoring the two recognition passes\<close>

text \<open>
  \<open>text.upper()\<close> as code points: a lower-case letter maps to its capital, the sharp s
  to two capital S, and y with diaeresis and the micro sign to capitals beyond 255.
\<close>

definition upper_codes :: "char \<Rightarrow> int list" where
  "upper_codes c =
     (if code c = 223 then [83, 83]
      else if code c = 255 then [376]
      else if code c = 181 then [924]
      else if (97 \<le> code c \<and> code c \<le> 122) \<or> (224 \<le> code c \<and> code c \<le> 254 \<and> code c \<noteq> 247)
      then [code c - 32]
      else [code c])"

definition upper :: "string \<Rightarrow> int list" where
  "upper text = concat (map upper_codes text)"

definition keywords_list :: "string list" where
  "keywords_list = [''LOAN'', ''PAYMENT'', ''BORROWER'', ''PRINCIPAL'', ''INTEREST'', ''RATE'',
               ''MATURITY'', ''ESCROW'']"

definition score_text :: "string \<Rightarrow> int" where
  "score_text text =
     (let digit_count = sum_list (map (\<lambda>c. if isdigit c then 1 else 0) text);
          keyword_hits = sum_list (map (\<lambda>kw. 1)
                           (filter (\<lambda>kw. sublist (map code kw) (upper text)) keywords_list))
      in digit_count + 50 * keyword_hits + int (length text) div 200)"

text \<open>The choice at the end of \<open>extract_text_from_image\<close>.\<close>

definition select_pass :: "string \<Rightarrow> string \<Rightarrow> string" where
  "select_pass text_base text_enhanced =
     (let score_base = score_text text_base;
          score_enhanced = score_text text_enhanced
      in if score_base < score_enhanced then text_enhanced else text_base)"

subsection \<open>The outside world\<close>

text \<open>
  The file system, the PDF reader, the OCR-layering tool and the recognition engine are
  parameters. \<open>'w\<close> is the state of the outside world. Each operation that can raise
  says so in its result, and the program's handlers turn that into a value:
  \<^item> \<open>pdf_first_page w path\<close>: the text of the first page of the PDF at \<open>path\<close> (the
    empty string when it has no page), or \<open>None\<close> when opening or reading raises;
  \<^item> \<open>ocrmypdf_ocr w inp out\<close>: the tool run from \<open>inp\<close> to \<open>out\<close>; the flag is
    false when it raises; the world after the run comes with it;
  \<^item> \<open>os_remove w path\<close>: false when the removal raises;
  \<^item> \<open>ocr_passes w path\<close>: the texts of the base and the enhanced recognition pass
    on the image at \<open>path\<close>, or \<open>None\<close> when opening, preprocessing or recognising
    raises.
  The trace records every call in order.
\<close>

datatype event = ReadPdf string | OcrLayer string string | Remove string | Recognise string

record 'w env =
  pdf_first_page :: "'w \<Rightarrow> string \<Rightarrow> string option"
  ocrmypdf_ocr :: "'w \<Rightarrow> string \<Rightarrow> string \<Rightarrow> bool \<times> 'w"
  os_remove :: "'w \<Rightarrow> string \<Rightarrow> bool \<times> 'w"
  ocr_passes :: "'w \<Rightarrow> string \<Rightarrow> (string \<times> string) option"

type_synonym 'w state = "'w \<times> event list"

definition extract_text_from_pdf ::
  "'w env \<Rightarrow> 'w state \<Rightarrow> string \<Rightarrow> (string \<times> provenance) \<times> 'w state" where
  "extract_text_from_pdf env st pdf_path =
     (let (w, tr) = st; st' = (w, tr @ [ReadPdf pdf_path])
      in case pdf_first_page env w pdf_path of
           Some text \<Rightarrow> if strip text \<noteq> [] then ((text, Pdf_text), st') else (([], Pdf_text), st')
         | None \<Rightarrow> (([], Pdf_text), st'))"

definition extract_text_from_image ::
  "'w env \<Rightarrow> 'w state \<Rightarrow> string \<Rightarrow> (string \<times> provenance) \<times> 'w state" where
  "extract_text_from_image env st image_path =
     (let (w, tr) = st; st' = (w, tr @ [Recognise image_path])
      in case ocr_passes env w image_path of
           Some (text_base, text_enhanced) \<Rightarrow> ((select_pass text_base text_enhanced, Ocr_text), st')
         | None \<Rightarrow> (([], Ocr_text), st'))"

definition run_ocrmypdf :: "'w env \<Rightarrow> 'w state \<Rightarrow> string \<Rightarrow> string \<Rightarrow> bool \<times> 'w state" where
  "run_ocrmypdf env st pdf_path output_path =
     (let (w, tr) = st; (ok, w') = ocrmypdf_ocr env w pdf_path output_path
      in (ok, (w', tr @ [OcrLayer pdf_path output_path])))"

text \<open>\<open>try: os.remove(path) except: pass\<close>\<close>

definition remove_quietly :: "'w env \<Rightarrow> 'w state \<Rightarrow> string \<Rightarrow> 'w state" where
  "remove_quietly env st path =
     (let (w, tr) = st; (ok, w') = os_remove env w path in (w', tr @ [Remove path]))"

subsection \<open>The pipeline\<close>

text \<open>
  \<open>acquire_text\<close> is the \<open>try\<close> block of \<open>process_extraction\<close>, from the initial
  \<open>text = ""\<close> to the text and provenance the field parsers are run on. Nothing
  in the block raises in this model, so its handler is never entered.
\<close>

definition acquire_text ::
  "'w env \<Rightarrow> 'w state \<Rightarrow> string \<Rightarrow> string \<Rightarrow> (string \<times> provenance) \<times> 'w state" where
  "acquire_text env st file_path file_type =
     (if file_type = ''pdf'' then
        (let ((text, text_provenance), st1) = extract_text_from_pdf env st file_path
         in if strip text = [] \<or> length (strip text) < 100 then
              (let ocr_pdf_path = replace ''.pdf'' ''_ocr.pdf'' file_path;
                   (ok, st2) = run_ocrmypdf env st1 file_path ocr_pdf_path
               in if ok then
                    (let ((text', p), st3) = extract_text_from_pdf env st2 ocr_pdf_path
                     in ((text', Ocr_text), remove_quietly env st3 ocr_pdf_path))
                  else ((text, text_provenance), st2))
            else ((text, text_provenance), st1))
      else extract_text_from_image env st file_path)"

text \<open>
  The result: the six fields in the order of the dictionary, and the debug record
  (its timings, line count and optional text sample are left out: no property below
  reads them).
\<close>

record debug_info =
  doc_type :: string
  pages_used :: "nat list"
  errors :: "string list"
  stats_source :: provenance
  stats_chars :: nat

record extraction_result =
  fields_dict :: "(string \<times> FieldExtraction) list"
  debug :: debug_info

definition field_parsers ::
  "datelib \<Rightarrow> (string \<times> (string \<Rightarrow> provenance \<Rightarrow> error + FieldExtraction option)) list" where
  "field_parsers lib =
     [(''principal_balance'', extract_principal_balance),
      (''note_rate'', extract_note_rate),
      (''scheduled_pi'', extract_scheduled_pi),
      (''escrow'', extract_escrow),
      (''next_due_date'', extract_next_due_date lib),
      (''maturity_date'', extract_maturity_date lib)]"

text \<open>Step 3 of \<open>process_extraction\<close>: the six parsers run one after the other on the
  text; the first exception ends the run.\<close>

fun run_parsers ::
  "(string \<times> (string \<Rightarrow> provenance \<Rightarrow> error + FieldExtraction option)) list
     \<Rightarrow> string \<Rightarrow> provenance \<Rightarrow> error + (string \<times> FieldExtraction option) list" where
  "run_parsers [] text prov = Inr []"
| "run_parsers ((field_name, parser) # ps) text prov =
     (case parser text prov of
        Inl e \<Rightarrow> Inl e
      | Inr v \<Rightarrow>
          (case run_parsers ps text prov of
             Inl e \<Rightarrow> Inl e
           | Inr vs \<Rightarrow> Inr ((field_name, v) # vs)))"

text \<open>The empty field that replaces \<open>None\<close>.\<close>

definition empty_field :: "provenance \<Rightarrow> FieldExtraction" where
  "empty_field prov = \<lparr>value_str = Some [], confidence = 0, provenance = prov\<rparr>"

text \<open>Steps 3 and 4: run the parsers when there is text (every field stays \<open>None\<close>
  otherwise), then replace every \<open>None\<close>.\<close>

definition assemble_fields ::
  "datelib \<Rightarrow> string \<Rightarrow> provenance \<Rightarrow> error + (string \<times> FieldExtraction) list" where
  "assemble_fields lib text text_provenance =
     (case (if strip text \<noteq> []
            then run_parsers (field_parsers lib) text text_provenance
            else Inr (map (\<lambda>(field_name, parser). (field_name, None)) (field_parsers lib))) of
        Inl e \<Rightarrow> Inl e
      | Inr extracted_fields \<Rightarrow>
          Inr (map (\<lambda>(field_name, v).
                      (field_name,
                       (case v of None \<Rightarrow> empty_field text_provenance | Some fe \<Rightarrow> fe)))
                   extracted_fields))"

text \<open>\<open>process_extraction\<close>: the result, or the exception a parser raised; the state
  of the world after the acquisition comes with either.\<close>

definition process_extraction ::
  "datelib \<Rightarrow> 'w env \<Rightarrow> 'w state \<Rightarrow> string \<Rightarrow> string
     \<Rightarrow> (error + extraction_result) \<times> 'w state" where
  "process_extraction lib env st file_path file_type =
     (let ((text, text_provenance), st') = acquire_text env st file_path file_type
      in case assemble_fields lib text text_provenance of
           Inl e \<Rightarrow> (Inl e, st')
         | Inr fs \<Rightarrow>
             (Inr \<lparr>fields_dict = fs,
                   debug = \<lparr>doc_type = file_type, pages_used = [1],
                            errors = (if strip text \<noteq> [] then []
                                      else [''No text extracted from document'']),
                            stats_source = text_provenance, stats_chars = length text\<rparr>\<rparr>,
              st'))"

section \<open>Properties of the matcher\<close>

text \<open>The end points of a greedy repetition: every split of the text after a run of
  matching characters whose length is within the bounds.\<close>

lemma rep_greedy_set:
  "set (rep_greedy ic cs lo hi pos rest) =
     {(pos + length w, s') | w s'. rest = w @ s' \<and> lo \<le> length w
        \<and> (\<forall>h. hi = Some h \<longrightarrow> length w \<le> h) \<and> (\<forall>c\<in>set w. cset_match ic cs c)}"
proof (induction rest arbitrary: lo hi pos)
  case Nil
  then show ?case by auto
next
  case (Cons c rest)
  show ?case
  proof (rule set_eqI)
    fix x :: "nat \<times> string"
    obtain p s' where x: "x = (p, s')" by (cases x)
    have "(p, s') \<in> set (rep_greedy ic cs lo hi pos (c # rest)) \<longleftrightarrow>
          (hi \<noteq> Some 0 \<and> cset_match ic cs c \<and>
             (\<exists>w. p = Suc pos + length w \<and> rest = w @ s' \<and> lo - 1 \<le> length w
                \<and> (\<forall>h. hi = Some h \<longrightarrow> length w \<le> h - 1) \<and> (\<forall>c\<in>set w. cset_match ic cs c)))
          \<or> (lo = 0 \<and> p = pos \<and> s' = c # rest)"
      by (auto simp: Cons.IH)
    also have "\<dots> \<longleftrightarrow> (\<exists>w. p = pos + length w \<and> c # rest = w @ s' \<and> lo \<le> length w
        \<and> (\<forall>h. hi = Some h \<longrightarrow> length w \<le> h) \<and> (\<forall>c\<in>set w. cset_match ic cs c))"
      (is "?L \<longleftrightarrow> ?R")
    proof
      assume ?L
      then show ?R
      proof
        assume a: "hi \<noteq> Some 0 \<and> cset_match ic cs c \<and>
             (\<exists>w. p = Suc pos + length w \<and> rest = w @ s' \<and> lo - 1 \<le> length w
                \<and> (\<forall>h. hi = Some h \<longrightarrow> length w \<le> h - 1) \<and> (\<forall>c\<in>set w. cset_match ic cs c))"
        then obtain w where w: "p = Suc pos + length w" "rest = w @ s'" "lo - 1 \<le> length w"
          "\<forall>h. hi = Some h \<longrightarrow> length w \<le> h - 1" "\<forall>c\<in>set w. cset_match ic cs c" by blast
        have "\<forall>h. hi = Some h \<longrightarrow> length (c # w) \<le> h"
        proof (intro allI impI)
          fix h assume h: "hi = Some h"
          with a have "h \<noteq> 0" by auto
          moreover from w(4) h have "length w \<le> h - 1" by blast
          ultimately show "length (c # w) \<le> h" by simp
        qed
        with w a show ?R by (intro exI[of _ "c # w"]) auto
      next
        assume "lo = 0 \<and> p = pos \<and> s' = c # rest"
        then show ?R by (intro exI[of _ "[]"]) auto
      qed
    next
      assume ?R
      then obtain w where w: "p = pos + length w" "c # rest = w @ s'" "lo \<le> length w"
          "\<forall>h. hi = Some h \<longrightarrow> length w \<le> h" "\<forall>c\<in>set w. cset_match ic cs c" by blast
      show ?L
      proof (cases w)
        case Nil
        with w show ?thesis by auto
      next
        case (Cons d w')
        with w have "hi \<noteq> Some 0" by auto
        moreover have "\<forall>h. hi = Some h \<longrightarrow> length w' \<le> h - 1" using w(4) Cons by auto
        ultimately show ?thesis using w Cons by auto
      qed
    qed
    finally show "x \<in> set (rep_greedy ic cs lo hi pos (c # rest)) \<longleftrightarrow> x \<in> {(pos + length w, s') | w s'. c # rest = w @ s' \<and> lo \<le> length w
        \<and> (\<forall>h. hi = Some h \<longrightarrow> length w \<le> h) \<and> (\<forall>c\<in>set w. cset_match ic cs c)}"
      using x by auto
  qed
qed

lemma first_match_SomeD:
  assumes "first_match ic r pos rest = Some m"
  shows "\<exists>p s. (p, s, m_groups m) \<in> set (rmatch ic r (pos, rest, [])) \<and> m_end m = p \<and> m_start m = pos"
proof (cases "rmatch ic r (pos, rest, [])")
  case Nil
  with assms show ?thesis by (simp add: first_match_def)
next
  case (Cons x xs)
  obtain p s caps where x: "x = (p, s, caps)" by (cases x)
  with Cons assms have "m = \<lparr>m_start = pos, m_end = p, m_groups = caps\<rparr>"
    by (simp add: first_match_def)
  with Cons x show ?thesis by auto
qed

lemma rate_pat1_shape:
  assumes "(p, s', caps) \<in> set (rmatch False rate_pat1 (0, s, []))"
  shows "\<exists>g ds nl. s = g # ''.'' @ ds @ ''%'' @ nl \<and> (g = sect \<or> g = CHR ''S'')
           \<and> (length ds = 3 \<or> length ds = 4) \<and> (\<forall>c\<in>set ds. is_dec_digit c)
           \<and> (nl = [] \<or> nl = [CHR 0x0A]) \<and> caps = [(1, ds)]"
proof -
  from assms obtain g w nl where
    "s = g # CHR ''.'' # w @ CHR ''%'' # nl" "g = sect \<or> g = CHR ''S''"
    "3 \<le> length w" "length w \<le> 4" "\<forall>c\<in>set w. is_dec_digit c" "nl = [] \<or> nl = [CHR 0x0A]"
    "caps = [(1, w)]"
    by (auto simp: rate_pat1_def glyph_def rep_greedy_set split: list.splits if_splits)
  then show ?thesis
    by (intro exI[of _ g] exI[of _ w] exI[of _ nl]) auto
qed

lemma rate_pat2_shape:
  assumes "(p, s', caps) \<in> set (rmatch False rate_pat2 (0, s, []))"
  shows "\<exists>g d ds nl. s = g # d # ''.'' @ ds @ ''%'' @ nl \<and> (g = sect \<or> g = CHR ''S'')
           \<and> is_dec_digit d
           \<and> (length ds = 3 \<or> length ds = 4) \<and> (\<forall>c\<in>set ds. is_dec_digit c)
           \<and> (nl = [] \<or> nl = [CHR 0x0A]) \<and> map_of caps 1 = Some [d] \<and> map_of caps 2 = Some ds"
proof -
  from assms obtain g d w nl where
    "s = g # d # CHR ''.'' # w @ CHR ''%'' # nl" "g = sect \<or> g = CHR ''S''" "is_dec_digit d"
    "3 \<le> length w" "length w \<le> 4" "\<forall>c\<in>set w. is_dec_digit c" "nl = [] \<or> nl = [CHR 0x0A]"
    "caps = [(2, w), (1, [d])]"
    by (auto simp: rate_pat2_def glyph_def rep_greedy_set split: list.splits if_splits)
  then show ?thesis
    by (intro exI[of _ g] exI[of _ d] exI[of _ w] exI[of _ nl]) auto
qed

text \<open>General facts: what a match consumes and what its groups hold.\<close>

lemma rep_lazy_set:
  "set (rep_lazy ic cs lo hi pos rest) = set (rep_greedy ic cs lo hi pos rest)"
  by (induction rest arbitrary: lo hi pos) auto

lemma rmatch_suffix:
  "(p, s', caps') \<in> set (rmatch ic r (pos, rest, caps)) \<Longrightarrow> \<exists>w. rest = w @ s' \<and> p = pos + length w"
proof (induction r arbitrary: pos rest caps p s' caps')
  case (Cat r1 r2)
  from Cat.prems obtain p1 s1 c1 where
    m1: "(p1, s1, c1) \<in> set (rmatch ic r1 (pos, rest, caps))"
    and m2: "(p, s', caps') \<in> set (rmatch ic r2 (p1, s1, c1))"
    by auto
  from Cat.IH(1)[OF m1] obtain w1 where "rest = w1 @ s1" "p1 = pos + length w1" by blast
  moreover from Cat.IH(2)[OF m2] obtain w2 where "s1 = w2 @ s'" "p = p1 + length w2" by blast
  ultimately show ?case by (intro exI[of _ "w1 @ w2"]) simp
next
  case (Grp n r)
  then show ?case by auto
qed (auto simp: rep_greedy_set rep_lazy_set split: list.splits if_splits)

lemma rmatch_min_len:
  "(p, s', caps') \<in> set (rmatch ic r (pos, rest, caps)) \<Longrightarrow> pos + min_len r \<le> p"
proof (induction r arbitrary: pos rest caps p s' caps')
  case (Cat r1 r2)
  from Cat.prems obtain p1 s1 c1 where
    m1: "(p1, s1, c1) \<in> set (rmatch ic r1 (pos, rest, caps))"
    and m2: "(p, s', caps') \<in> set (rmatch ic r2 (p1, s1, c1))"
    by auto
  from Cat.IH(1)[OF m1] Cat.IH(2)[OF m2] show ?case by simp
next
  case (Alt r1 r2)
  then show ?case by fastforce
next
  case (Opt r)
  from Opt.prems have "(p, s', caps') \<in> set (rmatch ic r (pos, rest, caps)) \<or> p = pos"
    by auto
  then show ?case
  proof
    assume "(p, s', caps') \<in> set (rmatch ic r (pos, rest, caps))"
    from Opt.IH[OF this] show ?thesis by simp
  next
    assume "p = pos"
    then show ?thesis by simp
  qed
next
  case (Grp n r)
  then show ?case by auto
qed (auto simp: rep_greedy_set rep_lazy_set split: list.splits if_splits)

lemma rmatch_accepts_only:
  "(p, s', caps') \<in> set (rmatch ic r (pos, rest, caps)) \<Longrightarrow> accepts_only ic P r
     \<Longrightarrow> \<exists>w. rest = w @ s' \<and> p = pos + length w \<and> (\<forall>c\<in>set w. P c)"
proof (induction r arbitrary: pos rest caps p s' caps')
  case (Cat r1 r2)
  from Cat.prems obtain p1 s1 c1 where
    m1: "(p1, s1, c1) \<in> set (rmatch ic r1 (pos, rest, caps))"
    and m2: "(p, s', caps') \<in> set (rmatch ic r2 (p1, s1, c1))"
    by auto
  from Cat.prems have a: "accepts_only ic P r1" "accepts_only ic P r2" by auto
  from Cat.IH(1)[OF m1 a(1)] obtain w1 where
    "rest = w1 @ s1" "p1 = pos + length w1" "\<forall>c\<in>set w1. P c" by blast
  moreover from Cat.IH(2)[OF m2 a(2)] obtain w2 where
    "s1 = w2 @ s'" "p = p1 + length w2" "\<forall>c\<in>set w2. P c" by blast
  ultimately show ?case by (intro exI[of _ "w1 @ w2"]) auto
next
  case (Alt r1 r2)
  then show ?case by fastforce
next
  case (Opt r)
  then show ?case by fastforce
next
  case (Grp n r)
  then show ?case by fastforce
next
  case (Sym cs)
  then show ?case by (auto split: list.splits if_splits intro!: exI[of _ "[hd rest]"])
qed (auto simp: rep_greedy_set rep_lazy_set split: list.splits if_splits)

lemma rmatch_group:
  "(p, s', caps') \<in> set (rmatch ic r (pos, rest, caps)) \<Longrightarrow> map_of caps' n = Some w
     \<Longrightarrow> map_of caps n = Some w \<or> (\<exists>b \<in> set (grp_bodies n r). matched_by ic b w)"
proof (induction r arbitrary: pos rest caps p s' caps')
  case (Cat r1 r2)
  from Cat.prems obtain p1 s1 c1 where
    m1: "(p1, s1, c1) \<in> set (rmatch ic r1 (pos, rest, caps))"
    and m2: "(p, s', caps') \<in> set (rmatch ic r2 (p1, s1, c1))"
    by auto
  from Cat.IH(2)[OF m2 Cat.prems(2)] show ?case
  proof
    assume "map_of c1 n = Some w"
    from Cat.IH(1)[OF m1 this] show ?thesis by auto
  next
    assume "\<exists>b\<in>set (grp_bodies n r2). matched_by ic b w"
    then show ?thesis by auto
  qed
next
  case (Alt r1 r2)
  then show ?case by fastforce
next
  case (Opt r)
  then show ?case by fastforce
next
  case (Grp k r)
  from Grp.prems(1) obtain c1 where
    m: "(p, s', c1) \<in> set (rmatch ic r (pos, rest, caps))"
    and c: "caps' = (k, take (p - pos) rest) # c1"
    by auto
  from rmatch_suffix[OF m] obtain u where u: "rest = u @ s'" "p = pos + length u" by blast
  show ?case
  proof (cases "k = n")
    case True
    with c Grp.prems(2) u have "w = u" by simp
    with m u have "matched_by ic r w" unfolding matched_by_def by blast
    with True show ?thesis by simp
  next
    case False
    with c Grp.prems(2) have "map_of c1 n = Some w" by simp
    from Grp.IH[OF m this] False show ?thesis by auto
  qed
qed (auto simp: rep_greedy_set rep_lazy_set split: list.splits if_splits)

lemma rmatch_caps_mono:
  "(p, s', caps') \<in> set (rmatch ic r (pos, rest, caps)) \<Longrightarrow> map_of caps n \<noteq> None
     \<Longrightarrow> map_of caps' n \<noteq> None"
proof (induction r arbitrary: pos rest caps p s' caps')
  case (Cat r1 r2)
  from Cat.prems obtain p1 s1 c1 where
    m1: "(p1, s1, c1) \<in> set (rmatch ic r1 (pos, rest, caps))"
    and m2: "(p, s', caps') \<in> set (rmatch ic r2 (p1, s1, c1))"
    by auto
  from Cat.IH(2)[OF m2 Cat.IH(1)[OF m1 Cat.prems(2)]] show ?case .
next
  case (Alt r1 r2)
  then show ?case by fastforce
next
  case (Opt r)
  then show ?case by fastforce
next
  case (Grp k r)
  from Grp.prems(1) obtain c1 where
    m: "(p, s', c1) \<in> set (rmatch ic r (pos, rest, caps))"
    and c: "caps' = (k, take (p - pos) rest) # c1"
    by auto
  from Grp.IH[OF m Grp.prems(2)] c show ?case by auto
qed (auto simp: rep_greedy_set rep_lazy_set split: list.splits if_splits)

lemma rmatch_sets_group:
  "(p, s', caps') \<in> set (rmatch ic r (pos, rest, caps)) \<Longrightarrow> sets_group n r
     \<Longrightarrow> map_of caps' n \<noteq> None"
proof (induction r arbitrary: pos rest caps p s' caps')
  case (Cat r1 r2)
  from Cat.prems obtain p1 s1 c1 where
    m1: "(p1, s1, c1) \<in> set (rmatch ic r1 (pos, rest, caps))"
    and m2: "(p, s', caps') \<in> set (rmatch ic r2 (p1, s1, c1))"
    by auto
  from Cat.prems(2) have "sets_group n r1 \<or> sets_group n r2" by simp
  then show ?case
  proof
    assume "sets_group n r1"
    from rmatch_caps_mono[OF m2 Cat.IH(1)[OF m1 this]] show ?thesis .
  next
    assume "sets_group n r2"
    from Cat.IH(2)[OF m2 this] show ?thesis .
  qed
next
  case (Alt r1 r2)
  then show ?case by fastforce
next
  case (Grp k r)
  from Grp.prems(1) obtain c1 where
    m: "(p, s', c1) \<in> set (rmatch ic r (pos, rest, caps))"
    and c: "caps' = (k, take (p - pos) rest) # c1"
    by auto
  show ?case
  proof (cases "k = n")
    case True
    with c show ?thesis by simp
  next
    case False
    with Grp.prems(2) have "sets_group n r" by simp
    from Grp.IH[OF m this] c False show ?thesis by simp
  qed
qed auto

lemma search_from_SomeD:
  "search_from ic r pos s = Some m \<Longrightarrow>
     \<exists>k\<le>length s. first_match ic r (pos + k) (drop k s) = Some m"
proof (induction s arbitrary: pos)
  case Nil
  then show ?case by simp
next
  case (Cons c s)
  show ?case
  proof (cases "first_match ic r pos (c # s)")
    case (Some m')
    with Cons.prems have "m' = m" by simp
    with Some show ?thesis by (intro exI[of _ 0]) simp
  next
    case None
    with Cons.prems have "search_from ic r (Suc pos) s = Some m" by simp
    from Cons.IH[OF this] obtain k where "k \<le> length s"
      "first_match ic r (Suc pos + k) (drop k s) = Some m" by blast
    then show ?thesis by (intro exI[of _ "Suc k"]) simp
  qed
qed

lemma search_from_NoneD:
  "search_from ic r pos s = None \<Longrightarrow> k \<le> length s \<Longrightarrow>
     first_match ic r (pos + k) (drop k s) = None"
proof (induction s arbitrary: pos k)
  case Nil
  then show ?case by simp
next
  case (Cons c s)
  from Cons.prems(1) have f: "first_match ic r pos (c # s) = None"
    and r: "search_from ic r (Suc pos) s = None"
    by (auto split: option.splits)
  show ?case
  proof (cases k)
    case 0
    with f show ?thesis by simp
  next
    case (Suc j)
    with Cons.prems(2) have "j \<le> length s" by simp
    from Cons.IH[OF r this] Suc show ?thesis by simp
  qed
qed

lemma re_search_group:
  assumes "re_search ic r text = Some m" and "group m n = Some w"
  shows "\<exists>b \<in> set (grp_bodies n r). matched_by ic b w"
proof -
  from assms(1) obtain k where "first_match ic r (0 + k) (drop k text) = Some m"
    unfolding re_search_def using search_from_SomeD by blast
  from first_match_SomeD[OF this] obtain p s where
    "(p, s, m_groups m) \<in> set (rmatch ic r (0 + k, drop k text, []))" by blast
  from rmatch_group[OF this] assms(2) show ?thesis by (simp add: group_def)
qed

lemma re_search_sets_group:
  assumes "re_search ic r text = Some m" and "sets_group n r"
  shows "\<exists>w. group m n = Some w"
proof -
  from assms(1) obtain k where "first_match ic r (0 + k) (drop k text) = Some m"
    unfolding re_search_def using search_from_SomeD by blast
  from first_match_SomeD[OF this] obtain p s where
    "(p, s, m_groups m) \<in> set (rmatch ic r (0 + k, drop k text, []))" by blast
  from rmatch_sets_group[OF this assms(2)] show ?thesis by (auto simp: group_def)
qed

lemma matched_by_min_len: "matched_by ic r w \<Longrightarrow> min_len r \<le> length w"
  unfolding matched_by_def using rmatch_min_len by fastforce

lemma matched_by_accepts_only:
  assumes "matched_by ic r w" and "accepts_only ic P r"
  shows "\<forall>c\<in>set w. P c"
proof -
  from assms(1) obtain pos s caps caps' where
    m: "(pos + length w, s, caps') \<in> set (rmatch ic r (pos, w @ s, caps))"
    unfolding matched_by_def by blast
  from rmatch_accepts_only[OF m assms(2)] obtain u where
    "w @ s = u @ s" "pos + length w = pos + length u" "\<forall>c\<in>set u. P c" by blast
  then show ?thesis by simp
qed

section \<open>Properties of rate-token normalization\<close>








text \<open>
  C10, as the program has it. \<open>normalize_rate_token\<close> rewrites a token only when it
  has the shape: the section sign or \<open>S\<close>, an optional single digit, a decimal point,
  three or four digits, a percent sign, and then nothing or one final newline (which
  \<open>$\<close> lets through and the rewrite drops). Every other token is returned unchanged,
  among them the misread rates with two fractional digits and a token with two digits
  before the point.
\<close>

theorem normalize_rate_token_only_shape:
  "(normalize_rate_token s \<noteq> s \<longrightarrow>
     (\<exists>g ds nl. (g = sect \<or> g = CHR ''S'') \<and> (length ds = 3 \<or> length ds = 4)
        \<and> (\<forall>c\<in>set ds. is_dec_digit c) \<and> (nl = [] \<or> nl = [CHR 0x0A])
        \<and> ((s = g # ''.'' @ ds @ ''%'' @ nl \<and> normalize_rate_token s = ''5.'' @ ds @ ''%'')
           \<or> (\<exists>d. is_dec_digit d \<and> s = g # d # ''.'' @ ds @ ''%'' @ nl
                  \<and> normalize_rate_token s = ''5'' @ [d] @ ''.'' @ ds @ ''%''))))
   \<and> normalize_rate_token (sect # ''.56%'') = sect # ''.56%''
   \<and> normalize_rate_token ''S.75%'' = ''S.75%''
   \<and> normalize_rate_token ''S12.3456%'' = ''S12.3456%''"
proof (intro conjI impI)
  assume neq: "normalize_rate_token s \<noteq> s"
  show "\<exists>g ds nl. (g = sect \<or> g = CHR ''S'') \<and> (length ds = 3 \<or> length ds = 4)
        \<and> (\<forall>c\<in>set ds. is_dec_digit c) \<and> (nl = [] \<or> nl = [CHR 0x0A])
        \<and> ((s = g # ''.'' @ ds @ ''%'' @ nl \<and> normalize_rate_token s = ''5.'' @ ds @ ''%'')
           \<or> (\<exists>d. is_dec_digit d \<and> s = g # d # ''.'' @ ds @ ''%'' @ nl
                  \<and> normalize_rate_token s = ''5'' @ [d] @ ''.'' @ ds @ ''%''))"
  proof (cases "re_match False rate_pat1 s")
    case (Some m)
    then obtain p s' where "(p, s', m_groups m) \<in> set (rmatch False rate_pat1 (0, s, []))"
      unfolding re_match_def using first_match_SomeD by blast
    from rate_pat1_shape[OF this] obtain g ds nl where
      sh: "s = g # ''.'' @ ds @ ''%'' @ nl" "g = sect \<or> g = CHR ''S''"
          "length ds = 3 \<or> length ds = 4" "\<forall>c\<in>set ds. is_dec_digit c"
          "nl = [] \<or> nl = [CHR 0x0A]" "m_groups m = [(1, ds)]" by blast
    have "normalize_rate_token s = ''5.'' @ ds @ ''%''"
      using Some sh(6) by (simp add: normalize_rate_token_def group_def)
    with sh show ?thesis by blast
  next
    case None
    show ?thesis
    proof (cases "re_match False rate_pat2 s")
      case (Some m)
      then obtain p s' where "(p, s', m_groups m) \<in> set (rmatch False rate_pat2 (0, s, []))"
        unfolding re_match_def using first_match_SomeD by blast
      from rate_pat2_shape[OF this] obtain g d ds nl where
        sh: "s = g # d # ''.'' @ ds @ ''%'' @ nl" "g = sect \<or> g = CHR ''S''" "is_dec_digit d"
            "length ds = 3 \<or> length ds = 4" "\<forall>c\<in>set ds. is_dec_digit c"
            "nl = [] \<or> nl = [CHR 0x0A]" "map_of (m_groups m) 1 = Some [d]"
            "map_of (m_groups m) 2 = Some ds" by blast
      have "normalize_rate_token s = ''5'' @ [d] @ ''.'' @ ds @ ''%''"
        using None Some sh(7,8) by (simp add: normalize_rate_token_def group_def)
      with sh show ?thesis by blast
    next
      case None2: None
      with None neq show ?thesis by (simp add: normalize_rate_token_def)
    qed
  qed
next
  show "normalize_rate_token (sect # ''.56%'') = sect # ''.56%''" by code_simp
  show "normalize_rate_token ''S.75%'' = ''S.75%''" by code_simp
  show "normalize_rate_token ''S12.3456%'' = ''S12.3456%''" by code_simp
qed

theorem normalize_rate_token_only_shape_witness:
  "normalize_rate_token ''S.7500%'' \<noteq> ''S.7500%'' \<and>
   (\<exists>g ds nl. (g = sect \<or> g = CHR ''S'') \<and> (length ds = 3 \<or> length ds = 4)
        \<and> (\<forall>c\<in>set ds. is_dec_digit c) \<and> (nl = [] \<or> nl = [CHR 0x0A])
        \<and> ((''S.7500%'' = g # ''.'' @ ds @ ''%'' @ nl \<and> normalize_rate_token ''S.7500%'' = ''5.'' @ ds @ ''%'')
           \<or> (\<exists>d. is_dec_digit d \<and> ''S.7500%'' = g # d # ''.'' @ ds @ ''%'' @ nl
                  \<and> normalize_rate_token ''S.7500%'' = ''5'' @ [d] @ ''.'' @ ds @ ''%'')))"
proof -
  have h: "normalize_rate_token ''S.7500%'' \<noteq> ''S.7500%''" by code_simp
  from normalize_rate_token_only_shape[of "''S.7500%''"] h show ?thesis by blast
qed

text \<open>
  The claim as stated asks for a token that ends with the percent sign; the token
  \<open>S.750%\<close> followed by a newline does not, and it is rewritten.
\<close>

theorem normalize_rate_token_newline_counterexample:
  "normalize_rate_token (''S.750%'' @ [CHR 0x0A]) = ''5.750%''
   \<and> normalize_rate_token (''S.750%'' @ [CHR 0x0A]) \<noteq> ''S.750%'' @ [CHR 0x0A]
   \<and> last (''S.750%'' @ [CHR 0x0A]) \<noteq> CHR ''%''"
  by code_simp

section \<open>Properties of the counter\<close>

lemma counter_add_keys:
  "map fst (counter_add kvs x) = (if x \<in> set (map fst kvs) then map fst kvs else map fst kvs @ [x])"
  by (induction kvs) (fastforce simp: image_iff)+

lemma counter_add_map_of:
  "map_of (counter_add kvs x) y =
     (if y = x then Some (case map_of kvs x of None \<Rightarrow> 1 | Some n \<Rightarrow> n + 1) else map_of kvs y)"
  by (induction kvs) auto

lemma Counter_snoc: "Counter (xs @ [x]) = counter_add (Counter xs) x"
  by (simp add: Counter_def)

lemma Counter_keys_set: "set (map fst (Counter xs)) = set xs"
proof (induction xs rule: rev_induct)
  case Nil
  show ?case by (simp add: Counter_def)
next
  case (snoc x xs)
  then show ?case by (auto simp: Counter_snoc counter_add_keys)
qed

lemma Counter_keys_distinct: "distinct (map fst (Counter xs))"
proof (induction xs rule: rev_induct)
  case Nil
  show ?case by (simp add: Counter_def)
next
  case (snoc x xs)
  then show ?case by (simp add: Counter_snoc counter_add_keys)
qed

lemma Counter_map_of:
  "map_of (Counter xs) x = (if x \<in> set xs then Some (count_list xs x) else None)"
proof (induction xs rule: rev_induct)
  case Nil
  show ?case by (simp add: Counter_def)
next
  case (snoc y xs)
  then show ?case by (auto simp: Counter_snoc counter_add_map_of)
qed

lemma Counter_item:
  assumes "(k, n) \<in> set (Counter xs)"
  shows "k \<in> set xs \<and> n = count_list xs k"
proof -
  from assms Counter_keys_distinct[of xs] have "map_of (Counter xs) k = Some n" by simp
  then show ?thesis by (auto simp: Counter_map_of split: if_splits)
qed

lemma first_pos_less_length: "x \<in> set xs \<Longrightarrow> first_pos xs x < length xs"
  unfolding first_pos_def by (induction xs) auto

lemma first_pos_append:
  "first_pos (xs @ ys) x = (if x \<in> set xs then first_pos xs x else length xs + first_pos ys x)"
  unfolding first_pos_def by (induction xs) auto

lemma first_pos_fresh: "x \<notin> set xs \<Longrightarrow> first_pos (xs @ x # ys) x = length xs"
  by (induction xs) (auto simp: first_pos_def)

lemma Counter_keys_order:
  assumes "a \<in> set xs" "b \<in> set xs"
  shows "first_pos (map fst (Counter xs)) a < first_pos (map fst (Counter xs)) b
           \<longleftrightarrow> first_pos xs a < first_pos xs b"
  using assms
proof (induction xs rule: rev_induct)
  case Nil
  then show ?case by simp
next
  case (snoc x xs)
  let ?K = "map fst (Counter xs)"
  have K: "set ?K = set xs" by (rule Counter_keys_set)
  show ?case
  proof (cases "x \<in> set xs")
    case True
    with snoc.prems have ab: "a \<in> set xs" "b \<in> set xs" by auto
    have "map fst (Counter (xs @ [x])) = ?K"
      using True K by (simp add: Counter_snoc counter_add_keys)
    with snoc.IH[OF ab] ab show ?thesis by (simp add: first_pos_append)
  next
    case False
    have keys: "map fst (Counter (xs @ [x])) = ?K @ [x]"
      using False K by (simp add: Counter_snoc counter_add_keys)
    have fx: "first_pos [x] x = 0" by (simp add: first_pos_def)
    consider (both) "a \<in> set xs" "b \<in> set xs" | (ax) "a = x" "a \<notin> set xs" | (bx) "b = x" "b \<notin> set xs" "a \<in> set xs"
      using snoc.prems False by auto
    then show ?thesis
    proof cases
      case both
      with snoc.IH[OF both] K show ?thesis by (simp add: keys first_pos_append)
    next
      case ax
      show ?thesis
      proof (cases "b \<in> set xs")
        case True
        from first_pos_less_length[OF True] have 1: "first_pos xs b < length xs" .
        from True K have "b \<in> set ?K" by simp
        from first_pos_less_length[OF this] have 2: "first_pos ?K b < length ?K" .
        from ax True K 1 2 show ?thesis by (simp add: keys first_pos_append fx)
      next
        case False
        with snoc.prems ax have "b = x" by auto
        with ax show ?thesis by simp
      qed
    next
      case bx
      from first_pos_less_length[OF bx(3)] have 1: "first_pos xs a < length xs" .
      from bx(3) K have "a \<in> set ?K" by simp
      from first_pos_less_length[OF this] have 2: "first_pos ?K a < length ?K" .
      from bx K 1 2 show ?thesis by (simp add: keys first_pos_append fx)
    qed
  qed
qed

text \<open>The maximum keeps the first of the items with the greatest count.\<close>

lemma max_by_count_split:
  "max_by_count best kvs = r \<Longrightarrow>
     (r = best \<and> (\<forall>e\<in>set kvs. snd e \<le> snd best))
     \<or> (\<exists>pre post. kvs = pre @ r # post \<and> snd best < snd r
           \<and> (\<forall>e\<in>set pre. snd e < snd r) \<and> (\<forall>e\<in>set post. snd e \<le> snd r))"
proof (induction kvs arbitrary: best)
  case Nil
  then show ?case by simp
next
  case (Cons kv kvs)
  show ?case
  proof (cases "snd best < snd kv")
    case True
    with Cons.prems have "max_by_count kv kvs = r" by simp
    from Cons.IH[OF this] show ?thesis
    proof
      assume a: "r = kv \<and> (\<forall>e\<in>set kvs. snd e \<le> snd kv)"
      with True have "kv # kvs = [] @ r # kvs \<and> snd best < snd r
           \<and> (\<forall>e\<in>set []. snd e < snd r) \<and> (\<forall>e\<in>set kvs. snd e \<le> snd r)" by simp
      then show ?thesis by blast
    next
      assume "\<exists>pre post. kvs = pre @ r # post \<and> snd kv < snd r
           \<and> (\<forall>e\<in>set pre. snd e < snd r) \<and> (\<forall>e\<in>set post. snd e \<le> snd r)"
      then obtain pre post where p: "kvs = pre @ r # post" "snd kv < snd r"
        "\<forall>e\<in>set pre. snd e < snd r" "\<forall>e\<in>set post. snd e \<le> snd r" by blast
      with True have "kv # kvs = (kv # pre) @ r # post \<and> snd best < snd r
           \<and> (\<forall>e\<in>set (kv # pre). snd e < snd r) \<and> (\<forall>e\<in>set post. snd e \<le> snd r)" by auto
      then show ?thesis by blast
    qed
  next
    case False
    with Cons.prems have "max_by_count best kvs = r" by simp
    from Cons.IH[OF this] show ?thesis
    proof
      assume "r = best \<and> (\<forall>e\<in>set kvs. snd e \<le> snd best)"
      with False show ?thesis by auto
    next
      assume "\<exists>pre post. kvs = pre @ r # post \<and> snd best < snd r
           \<and> (\<forall>e\<in>set pre. snd e < snd r) \<and> (\<forall>e\<in>set post. snd e \<le> snd r)"
      then obtain pre post where p: "kvs = pre @ r # post" "snd best < snd r"
        "\<forall>e\<in>set pre. snd e < snd r" "\<forall>e\<in>set post. snd e \<le> snd r" by blast
      with False have "kv # kvs = (kv # pre) @ r # post \<and> snd best < snd r
           \<and> (\<forall>e\<in>set (kv # pre). snd e < snd r) \<and> (\<forall>e\<in>set post. snd e \<le> snd r)" by auto
      then show ?thesis by blast
    qed
  qed
qed

lemma most_common1_first_max:
  assumes "items \<noteq> []" and "distinct (map fst items)"
  shows "\<exists>r. most_common1 items = [r] \<and> r \<in> set items
           \<and> (\<forall>e\<in>set items. snd e \<le> snd r)
           \<and> (\<forall>e\<in>set items. snd e = snd r \<longrightarrow>
                  first_pos (map fst items) (fst r) \<le> first_pos (map fst items) (fst e))"
proof -
  from assms(1) obtain kv kvs where items: "items = kv # kvs" by (cases items) auto
  define r where "r = max_by_count kv kvs"
  have mc: "most_common1 items = [r]" by (simp add: most_common1_def items r_def)
  from max_by_count_split[OF r_def[symmetric]] show ?thesis
  proof
    assume a: "r = kv \<and> (\<forall>e\<in>set kvs. snd e \<le> snd kv)"
    then have "first_pos (map fst items) (fst r) = 0" by (simp add: items first_pos_def)
    with a mc items show ?thesis by auto
  next
    assume "\<exists>pre post. kvs = pre @ r # post \<and> snd kv < snd r
           \<and> (\<forall>e\<in>set pre. snd e < snd r) \<and> (\<forall>e\<in>set post. snd e \<le> snd r)"
    then obtain pre post where p: "kvs = pre @ r # post" "snd kv < snd r"
      "\<forall>e\<in>set pre. snd e < snd r" "\<forall>e\<in>set post. snd e \<le> snd r" by blast
    have it: "items = (kv # pre) @ r # post" by (simp add: items p(1))
    have notin: "fst r \<notin> set (map fst (kv # pre))"
      using assms(2) unfolding it by auto
    have keys: "map fst items = map fst (kv # pre) @ fst r # map fst post"
      unfolding it by simp
    have fr: "first_pos (map fst items) (fst r) = length (kv # pre)"
      unfolding keys using first_pos_fresh[OF notin] by simp
    have "\<forall>e\<in>set items. snd e = snd r \<longrightarrow> length (kv # pre) \<le> first_pos (map fst items) (fst e)"
    proof (intro ballI impI)
      fix e assume e: "e \<in> set items" "snd e = snd r"
      with p have "e \<notin> set (kv # pre)" by auto
      with e(1) have e2: "e \<in> set (r # post)" unfolding it by auto
      have disj: "set (map fst (kv # pre)) \<inter> set (map fst (r # post)) = {}"
        using assms(2) unfolding keys by simp
      have "fst e \<in> set (map fst (r # post))"
        using e2 by (metis image_eqI set_map)
      with disj have "fst e \<notin> set (map fst (kv # pre))" by blast
      then show "length (kv # pre) \<le> first_pos (map fst items) (fst e)"
        unfolding keys first_pos_append by simp
    qed
    moreover have "\<forall>e\<in>set items. snd e \<le> snd r" using p unfolding it by auto
    moreover have "r \<in> set items" unfolding it by simp
    ultimately show ?thesis using mc fr by auto
  qed
qed

lemma most_common1_Counter:
  assumes "xs \<noteq> []"
  shows "\<exists>v. most_common1 (Counter xs) = [(v, count_list xs v)] \<and> v \<in> set xs
           \<and> (\<forall>w\<in>set xs. count_list xs w \<le> count_list xs v)
           \<and> (\<forall>w\<in>set xs. count_list xs w = count_list xs v \<longrightarrow> first_pos xs v \<le> first_pos xs w)"
proof -
  have ne: "Counter xs \<noteq> []"
    using assms Counter_keys_set[of xs] by auto
  from most_common1_first_max[OF ne Counter_keys_distinct] obtain r where
    r: "most_common1 (Counter xs) = [r]" "r \<in> set (Counter xs)"
       "\<forall>e\<in>set (Counter xs). snd e \<le> snd r"
       "\<forall>e\<in>set (Counter xs). snd e = snd r \<longrightarrow>
            first_pos (map fst (Counter xs)) (fst r) \<le> first_pos (map fst (Counter xs)) (fst e)"
    by blast
  obtain v n where vn: "r = (v, n)" by (cases r)
  from Counter_item[of v n xs] r(2) vn have v: "v \<in> set xs" "n = count_list xs v" by auto
  have item: "(w, count_list xs w) \<in> set (Counter xs)" if "w \<in> set xs" for w
    using that Counter_map_of[of xs w] by (auto dest: map_of_SomeD)
  have le: "\<forall>w\<in>set xs. count_list xs w \<le> count_list xs v"
    using r(3) item vn v by fastforce
  have tie: "\<forall>w\<in>set xs. count_list xs w = count_list xs v \<longrightarrow> first_pos xs v \<le> first_pos xs w"
  proof (intro ballI impI)
    fix w assume w: "w \<in> set xs" "count_list xs w = count_list xs v"
    from r(4) item[OF w(1)] w(2) vn v
    have "first_pos (map fst (Counter xs)) v \<le> first_pos (map fst (Counter xs)) w" by fastforce
    then have "\<not> first_pos (map fst (Counter xs)) w < first_pos (map fst (Counter xs)) v" by simp
    with Counter_keys_order[OF w(1) v(1)] show "first_pos xs v \<le> first_pos xs w" by simp
  qed
  from r(1) vn v le tie show ?thesis by auto
qed

section \<open>Properties of the date fields\<close>

lemmas pat_defs = phrase_def str_def colon_space_def paren_opt_def Plus_def Star_def

lemma date_body_no_group: "grp_bodies n date_body = []"
  by (simp add: date_body_def pat_defs)

lemma next_due_pat_group: "sets_group 1 next_due_pat" "grp_bodies 1 next_due_pat = [date_body]"
  by (simp_all add: next_due_pat_def pat_defs date_body_no_group)

lemma maturity_pat_group: "sets_group 1 maturity_pat" "grp_bodies 1 maturity_pat = [date_body]"
  by (simp_all add: maturity_pat_def pat_defs date_body_no_group)

lemma date_body_min_len: "min_len date_body = 6"
  by (simp add: date_body_def pat_defs)

lemma date_capture:
  assumes "re_search True pat text = Some m" and "sets_group 1 pat"
    and "grp_bodies 1 pat = [date_body]"
  shows "\<exists>date_str. group m 1 = Some date_str \<and> 6 \<le> length date_str"
proof -
  from re_search_sets_group[OF assms(1,2)] obtain w where w: "group m 1 = Some w" by blast
  from re_search_group[OF assms(1) w] assms(3) have "matched_by True date_body w" by simp
  from matched_by_min_len[OF this] w show ?thesis by (simp add: date_body_min_len)
qed

text \<open>What each date parser returns, by the outcome of the library call.\<close>

lemma extract_next_due_date_cases:
  "extract_next_due_date lib text prov =
     (case re_search True next_due_pat text of
        None \<Rightarrow> Inr None
      | Some m \<Rightarrow>
          (case parse lib (the (group m 1)) of
             Parsed d \<Rightarrow> Inr (Some \<lparr>value_str = Some (strftime_ymd d), confidence = 9 / 10,
                                     provenance = prov\<rparr>)
           | ParserError \<Rightarrow> Inr (Some \<lparr>value_str = Some (the (group m 1)), confidence = 5 / 10,
                                        provenance = prov\<rparr>)
           | Raises e \<Rightarrow> Inl e))"
proof (cases "re_search True next_due_pat text")
  case None
  then show ?thesis by (simp add: extract_next_due_date_def next_due_patterns_def)
next
  case (Some m)
  from date_capture[OF Some next_due_pat_group] obtain w where "group m 1 = Some w" by blast
  with Some show ?thesis
    by (simp add: extract_next_due_date_def next_due_patterns_def date_field_def
             split: parse_result.splits)
qed

lemma extract_maturity_date_cases:
  "extract_maturity_date lib text prov =
     (case re_search True maturity_pat text of
        None \<Rightarrow> Inr None
      | Some m \<Rightarrow>
          (case parse lib (the (group m 1)) of
             Parsed d \<Rightarrow> Inr (Some \<lparr>value_str = Some (strftime_ymd d), confidence = 9 / 10,
                                     provenance = prov\<rparr>)
           | ParserError \<Rightarrow> Inr (Some \<lparr>value_str = Some (the (group m 1)), confidence = 5 / 10,
                                        provenance = prov\<rparr>)
           | Raises e \<Rightarrow> Inl e))"
proof (cases "re_search True maturity_pat text")
  case None
  then show ?thesis by (simp add: extract_maturity_date_def maturity_patterns_def)
next
  case (Some m)
  from date_capture[OF Some maturity_pat_group] obtain w where "group m 1 = Some w" by blast
  with Some show ?thesis
    by (simp add: extract_maturity_date_def maturity_patterns_def date_field_def
             split: parse_result.splits)
qed

text \<open>
  C9 says that a captured date string that does not parse is kept verbatim at
  confidence 0.50 and is never dropped, and that a parsed one is rendered as
  \<open>YYYY-MM-DD\<close>. The program catches ValueError and ParserError only. On the text
  \<open>Maturity Date: 9999999999 31, 0100\<close> the label rule captures
  \<open>9999999999 31, 0100\<close>; the date library raises OverflowError on that string,
  and the exception leaves \<open>extract_maturity_date\<close> and \<open>process_extraction\<close>: no
  field is produced. The same holds for \<open>extract_next_due_date\<close> on
  \<open>Payment Due: 9999999999 31, 0100\<close>. And a parsed date of the year 999,
  captured as \<open>01/15/999\<close>, is rendered \<open>999-01-15\<close> at confidence 0.90, which is
  not of the form \<open>YYYY-MM-DD\<close>.
\<close>

theorem date_overflow_escapes:
  "re_search True maturity_pat ''Maturity Date: 9999999999 31, 0100'' =
     Some \<lparr>m_start = 0, m_end = 34, m_groups = [(1, ''9999999999 31, 0100'')]\<rparr>
   \<and> extract_maturity_date
         \<lparr>parse = (\<lambda>s. if s = ''9999999999 31, 0100'' then Raises OverflowError else ParserError)\<rparr>
         ''Maturity Date: 9999999999 31, 0100'' Pdf_text = Inl OverflowError
   \<and> extract_next_due_date
         \<lparr>parse = (\<lambda>s. if s = ''9999999999 31, 0100'' then Raises OverflowError else ParserError)\<rparr>
         ''Payment Due: 9999999999 31, 0100'' Pdf_text = Inl OverflowError
   \<and> assemble_fields
         \<lparr>parse = (\<lambda>s. if s = ''9999999999 31, 0100'' then Raises OverflowError else ParserError)\<rparr>
         ''Maturity Date: 9999999999 31, 0100'' Pdf_text = Inl OverflowError
   \<and> extract_maturity_date
         \<lparr>parse = (\<lambda>s. if s = ''01/15/999'' then Parsed \<lparr>year = 999, month = 1, day = 15\<rparr>
                         else ParserError)\<rparr>
         ''Maturity Date: 01/15/999'' Pdf_text =
       Inr (Some \<lparr>value_str = Some ''999-01-15'', confidence = 9 / 10, provenance = Pdf_text\<rparr>)"
  by code_simp

section \<open>Properties of the number model\<close>

lemma ipow_int: "ipow b (int n) = b ^ n"
proof (induction n)
  case 0
  show ?case by (subst ipow.simps) simp
next
  case (Suc n)
  have "ipow b (int (Suc n)) = b * ipow b (int (Suc n) - 1)"
    by (subst ipow.simps) simp
  with Suc show ?case by simp
qed

lemma ipow_nonneg: "0 \<le> e \<Longrightarrow> ipow b e = b ^ nat e"
  using ipow_int[of b "nat e"] by simp

lemma float_value_one_pos: "0 < float_value 1 k"
  by (simp add: float_value_def)

lemma float_value_scale:
  assumes "k \<le> e"
  shows "float_value m e = of_int (m * ipow 2 (e - k)) * float_value 1 k"
proof -
  have p: "ipow 2 (e - k) = 2 ^ nat (e - k)" using assms by (simp add: ipow_nonneg)
  consider (a) "0 \<le> k" | (b) "k < 0" "0 \<le> e" | (c) "e < 0" by linarith
  then show ?thesis
  proof cases
    case a
    with assms have "nat e = nat (e - k) + nat k" by simp
    with a assms show ?thesis by (simp add: float_value_def p power_add)
  next
    case b
    then have "nat (e - k) = nat e + nat (- k)" by simp
    with b show ?thesis by (simp add: float_value_def p power_add)
  next
    case c
    with assms have "nat (- k) = nat (e - k) + nat (- e)" by simp
    with c assms show ?thesis by (simp add: float_value_def p power_add)
  qed
qed

lemma f_less_Finite:
  "f_less (Finite m e) (Finite m' e') \<longleftrightarrow> float_value m e < float_value m' e'"
proof -
  define k where "k = min e e'"
  have 1: "float_value m e = of_int (m * ipow 2 (e - k)) * float_value 1 k"
    by (rule float_value_scale) (simp add: k_def)
  have 2: "float_value m' e' = of_int (m' * ipow 2 (e' - k)) * float_value 1 k"
    by (rule float_value_scale) (simp add: k_def)
  have "f_less (Finite m e) (Finite m' e') \<longleftrightarrow> m * ipow 2 (e - k) < m' * ipow 2 (e' - k)"
    by (simp add: k_def Let_def)
  also have "\<dots> \<longleftrightarrow> (of_int (m * ipow 2 (e - k)) :: rat) < of_int (m' * ipow 2 (e' - k))"
    by (simp only: of_int_less_iff)
  also have "\<dots> \<longleftrightarrow> float_value m e < float_value m' e'"
    unfolding 1 2 using float_value_one_pos[of k] by (simp add: mult_less_cancel_right)
  finally show ?thesis .
qed

lemma float_value_int: "float_value n 0 = of_int n"
  by (simp add: float_value_def)

lemma rate_ok_iff:
  "rate_ok v \<longleftrightarrow>
     (\<exists>m e. py_float v = Some (Finite m e) \<and> 0 < float_value m e \<and> float_value m e \<le> 25)"
proof (cases "py_float v")
  case None
  then show ?thesis by (simp add: rate_ok_def)
next
  case (Some x)
  show ?thesis
  proof (cases x)
    case (Finite m e)
    have a: "f_less (Finite 0 0) (Finite m e) \<longleftrightarrow> 0 < float_value m e"
      unfolding f_less_Finite by (simp add: float_value_int)
    have b: "f_less (Finite m e) (Finite 25 0) \<longleftrightarrow> float_value m e < 25"
      unfolding f_less_Finite by (simp add: float_value_int)
    have c: "f_less (Finite 25 0) (Finite m e) \<longleftrightarrow> 25 < float_value m e"
      unfolding f_less_Finite by (simp add: float_value_int)
    from Some Finite show ?thesis
      by (auto simp: rate_ok_def f_greater_def f_le_def of_int_float_def a b c
               simp del: f_less.simps)
  qed (use Some in \<open>auto simp: rate_ok_def f_greater_def f_le_def of_int_float_def\<close>)
qed

end
